theory Spec2Isabelle
  imports Main "HOL-Library.Sublist"
begin

section \<open>Exceptions, outcomes and the trace of a worker process\<close>

text \<open>
  A Python exception as the script can observe it: whether it is an instance of
  \<^verbatim>\<open>RuntimeError\<close> (what the clause \<^verbatim>\<open>except RuntimeError as e\<close> tests, subclasses
  included) and the text \<^verbatim>\<open>str(e)\<close>.
\<close>

record exn =
  runtime_error :: bool
  message :: string

text \<open>
  What one iteration of the probing loop meets at batch size \<open>b\<close>. The loop body first
  builds a \<^verbatim>\<open>DataLoader\<close> (line 68, outside the \<^verbatim>\<open>try\<close>) and then runs one
  forward/backward pass inside the \<^verbatim>\<open>try\<close> (lines 70 to 75). Both are calls into
  the training library and the accelerator; their outcome is a parameter of the model.
\<close>

datatype outcome =
    Passed
  | RaisedInTry exn
  | RaisedAtLoader exn

text \<open>
  The calls a worker makes that the specification speaks about, in the order it makes
  them. Batch sizes are Python integers, hence \<open>int\<close>.
\<close>

datatype event =
    InitProcessGroup
  | SetDevice
  | InitializeModel
  | MakeDataLoader int
  | ProbeStep int
  | TrainStep nat nat
  | DestroyProcessGroup

text \<open>
  A run of a function: the events it produced, and either the exception that
  propagated out of it (\<open>Inl\<close>) or its return value (\<open>Inr\<close>).
\<close>

type_synonym 'a run = "event list \<times> (exn + 'a)"

text \<open>
  Lines 52 to 60 and 94 to 102: the process group is initialised, the device selected
  and the model loaded and wrapped. These calls are taken to return normally.
\<close>

definition bootstrap :: "event list" where
  "bootstrap = [InitProcessGroup, SetDevice, InitializeModel]"

section \<open>The batch-size probe\<close>

text \<open>
  The \<^verbatim>\<open>while\<close> loop of \<^verbatim>\<open>find_max_batch_size\<close> (lines 67 to 86). The source's
  variables \<^verbatim>\<open>batch_size\<close> and \<^verbatim>\<open>success_batch_size\<close> are arguments; \<open>k\<close> counts the
  iterations so far, so that the environment \<open>env k b\<close> may answer differently when the
  same size is tried again; \<open>tr\<close> is the trace so far. The loop need not terminate (a
  stride that is not positive can try sizes below the maximum for ever), so its value
  is an option: \<open>None\<close> is a run that never leaves the loop. \<open>Inr s\<close> is a normal exit
  from the loop (by the loop condition or by \<^verbatim>\<open>break\<close>) with \<^verbatim>\<open>success_batch_size\<close>
  equal to \<open>s\<close>; \<open>Inl e\<close> is the exception \<open>e\<close> leaving the function.
\<close>

partial_function (option) probe_loop ::
  "(nat \<Rightarrow> int \<Rightarrow> outcome) \<Rightarrow> int \<Rightarrow> int \<Rightarrow> nat \<Rightarrow> int \<Rightarrow> int \<Rightarrow> event list \<Rightarrow> int run option"
where
  "probe_loop env max_batch_size step k batch_size success_batch_size tr =
     (if batch_size \<le> max_batch_size then
        (case env k batch_size of
           RaisedAtLoader e \<Rightarrow> Some (tr @ [MakeDataLoader batch_size], Inl e)
         | Passed \<Rightarrow>
             probe_loop env max_batch_size step (Suc k) (batch_size + step) batch_size
               (tr @ [MakeDataLoader batch_size, ProbeStep batch_size])
         | RaisedInTry e \<Rightarrow>
             (if runtime_error e then
                (if sublist ''CUDA out of memory'' (message e)
                 then Some (tr @ [MakeDataLoader batch_size, ProbeStep batch_size],
                            Inr success_batch_size)
                 else Some (tr @ [MakeDataLoader batch_size, ProbeStep batch_size], Inl e))
              else Some (tr @ [MakeDataLoader batch_size, ProbeStep batch_size], Inl e)))
      else Some (tr, Inr success_batch_size))"

text \<open>
  \<^verbatim>\<open>find_max_batch_size\<close> (lines 51 to 89): bootstrap, the loop started with
  \<^verbatim>\<open>batch_size = success_batch_size = start_batch_size\<close>, then, only when the loop
  was left normally, the teardown of the process group and the return of
  \<^verbatim>\<open>success_batch_size\<close>. The arguments \<^verbatim>\<open>rank\<close> and \<^verbatim>\<open>world_size\<close> only select the
  device and the messages printed; they are left out.
\<close>

definition find_max_batch_size ::
  "(nat \<Rightarrow> int \<Rightarrow> outcome) \<Rightarrow> int \<Rightarrow> int \<Rightarrow> int \<Rightarrow> int run option"
where
  "find_max_batch_size env start_batch_size max_batch_size step =
     (case probe_loop env max_batch_size step 0 start_batch_size start_batch_size bootstrap of
        None \<Rightarrow> None
      | Some (tr, Inl e) \<Rightarrow> Some (tr, Inl e)
      | Some (tr, Inr s) \<Rightarrow> Some (tr @ [DestroyProcessGroup], Inr s))"

declare probe_loop.simps [code]

section \<open>Training and the worker's main function\<close>

text \<open>
  What the library and the accelerator do during one worker's life: the outcome of each
  probing iteration, what building the training \<^verbatim>\<open>DataLoader\<close> for a batch size gives
  (an exception, or the number of batches it yields per epoch), and whether the training
  step of a given epoch and batch raises.
\<close>

record world =
  probe_outcome :: "nat \<Rightarrow> int \<Rightarrow> outcome"
  train_loader :: "int \<Rightarrow> exn + nat"
  train_outcome :: "nat \<Rightarrow> nat \<Rightarrow> exn option"

text \<open>
  The inner loop of \<^verbatim>\<open>train\<close> (lines 113 to 120) over the batches of one epoch, and the
  outer loop (lines 110 to 120) over the epochs. An exception raised by a step leaves
  both loops at once; nothing in \<^verbatim>\<open>train\<close> catches it.
\<close>

fun train_batches :: "(nat \<Rightarrow> nat \<Rightarrow> exn option) \<Rightarrow> nat \<Rightarrow> nat list \<Rightarrow> event list \<Rightarrow> unit run" where
  "train_batches steps epoch [] tr = (tr, Inr ())"
| "train_batches steps epoch (i # batches) tr =
     (case steps epoch i of
        Some e \<Rightarrow> (tr @ [TrainStep epoch i], Inl e)
      | None \<Rightarrow> train_batches steps epoch batches (tr @ [TrainStep epoch i]))"

fun train_epochs :: "(nat \<Rightarrow> nat \<Rightarrow> exn option) \<Rightarrow> nat \<Rightarrow> nat list \<Rightarrow> event list \<Rightarrow> unit run" where
  "train_epochs steps n [] tr = (tr, Inr ())"
| "train_epochs steps n (epoch # epochs) tr =
     (case train_batches steps epoch [0..<n] tr of
        (tr', Inl e) \<Rightarrow> (tr', Inl e)
      | (tr', Inr u) \<Rightarrow> train_epochs steps n epochs tr')"

text \<open>
  \<^verbatim>\<open>train\<close> (lines 93 to 122): bootstrap, the \<^verbatim>\<open>DataLoader\<close> for the given batch size,
  \<^verbatim>\<open>range(epochs)\<close> epochs (none when \<^verbatim>\<open>epochs\<close> is not positive), and the teardown of
  the process group after the loops.
\<close>

definition train :: "world \<Rightarrow> int \<Rightarrow> int \<Rightarrow> unit run" where
  "train W batch_size epochs =
     (case train_loader W batch_size of
        Inl e \<Rightarrow> (bootstrap @ [MakeDataLoader batch_size], Inl e)
      | Inr n \<Rightarrow>
          (case train_epochs (train_outcome W) n [0..<nat epochs]
                  (bootstrap @ [MakeDataLoader batch_size]) of
             (tr, Inl e) \<Rightarrow> (tr, Inl e)
           | (tr, Inr u) \<Rightarrow> (tr @ [DestroyProcessGroup], Inr ())))"

text \<open>
  \<^verbatim>\<open>main\<close> (lines 126 to 133): the probe, then training with the size the probe
  returned. An exception of the probe ends the worker before training.
\<close>

definition main :: "world \<Rightarrow> int \<Rightarrow> int \<Rightarrow> int \<Rightarrow> int \<Rightarrow> unit run option" where
  "main W start_batch_size max_batch_size step epochs =
     (case find_max_batch_size (probe_outcome W) start_batch_size max_batch_size step of
        None \<Rightarrow> None
      | Some (tr, Inl e) \<Rightarrow> Some (tr, Inl e)
      | Some (tr, Inr max_batch_size') \<Rightarrow>
          (case train W max_batch_size' epochs of (tr', r) \<Rightarrow> Some (tr @ tr', r)))"

section \<open>The synthetic dataset\<close>

text \<open>
  The random number generator of the tensor library, as far as \<^verbatim>\<open>DummyDataset\<close> uses
  it: \<^verbatim>\<open>torch.manual_seed(seed)\<close> sets the state of the global generator, and
  \<^verbatim>\<open>torch.randint(low, high, size=(rows, cols))\<close> reads that state, raises or returns
  a tensor, and leaves a new state. The generator is a parameter: the theorems hold for
  every generator whose draws are a function of its state.
\<close>

record 'g torch =
  manual_seed :: "int \<Rightarrow> 'g"
  randint :: "'g \<Rightarrow> int \<Rightarrow> int \<Rightarrow> int \<Rightarrow> int \<Rightarrow> exn + (int list list \<times> 'g)"

record DummyDataset =
  num_samples :: int
  input_ids :: "int list list"
  decoder_input_ids :: "int list list"
  labels :: "int list list"

text \<open>
  \<^verbatim>\<open>DummyDataset.__init__\<close> (lines 23 to 29). \<open>g0\<close> is the state of the global
  generator when the constructor is called; line 25 overwrites it. The result carries
  the state the constructor leaves behind.
\<close>

definition DummyDataset_init ::
  "'g torch \<Rightarrow> 'g \<Rightarrow> int \<Rightarrow> int \<Rightarrow> int \<Rightarrow> int \<Rightarrow> exn + (DummyDataset \<times> 'g)"
where
  "DummyDataset_init T g0 n_samples num_tokens max_len seed =
     (let g1 = manual_seed T seed in
      case randint T g1 0 num_tokens n_samples max_len of
        Inl e \<Rightarrow> Inl e
      | Inr (a, g2) \<Rightarrow>
          (case randint T g2 0 num_tokens n_samples max_len of
             Inl e \<Rightarrow> Inl e
           | Inr (b, g3) \<Rightarrow>
               (case randint T g3 0 num_tokens n_samples max_len of
                  Inl e \<Rightarrow> Inl e
                | Inr (c, g4) \<Rightarrow>
                    Inr (\<lparr>num_samples = n_samples, input_ids = a,
                          decoder_input_ids = b, labels = c\<rparr>, g4))))"

definition DummyDataset_len :: "DummyDataset \<Rightarrow> int" where
  "DummyDataset_len d = num_samples d"

definition index_error :: exn where
  "index_error = \<lparr>runtime_error = False, message = ''index out of range''\<rparr>"

text \<open>
  Indexing a two-dimensional tensor with an integer, as in \<^verbatim>\<open>self.input_ids[idx]\<close>: a
  negative index counts from the end, and an index outside the first dimension raises
  \<^verbatim>\<open>IndexError\<close>.
\<close>

definition tensor_row :: "int list list \<Rightarrow> int \<Rightarrow> exn + int list" where
  "tensor_row t idx =
     (let n = int (length t); j = (if idx < 0 then idx + n else idx)
      in if 0 \<le> j \<and> j < n then Inr (t ! nat j) else Inl index_error)"

text \<open>\<^verbatim>\<open>DummyDataset.__getitem__\<close> (lines 34 to 39): a dictionary, in insertion order.\<close>

definition DummyDataset_getitem :: "DummyDataset \<Rightarrow> int \<Rightarrow> exn + (string \<times> int list) list" where
  "DummyDataset_getitem d idx =
     (case tensor_row (input_ids d) idx of
        Inl e \<Rightarrow> Inl e
      | Inr a \<Rightarrow>
          (case tensor_row (decoder_input_ids d) idx of
             Inl e \<Rightarrow> Inl e
           | Inr b \<Rightarrow>
               (case tensor_row (labels d) idx of
                  Inl e \<Rightarrow> Inl e
                | Inr c \<Rightarrow>
                    Inr [(''input_ids'', a), (''decoder_input_ids'', b), (''labels'', c)])))"

section \<open>Notions used to state the properties\<close>

text \<open>
  The events of \<open>n\<close> successive probing iterations that start at size \<open>b\<close>: sizes
  \<open>b\<close>, \<open>b + step\<close>, \<open>b + 2 * step\<close>, and so on.
\<close>

fun stride_trace :: "int \<Rightarrow> int \<Rightarrow> nat \<Rightarrow> event list" where
  "stride_trace b step 0 = []"
| "stride_trace b step (Suc n) =
     MakeDataLoader b # ProbeStep b # stride_trace (b + step) step n"

text \<open>
  The value of \<^verbatim>\<open>success_batch_size\<close> after \<open>n\<close> passes that started at size \<open>b\<close>
  with \<^verbatim>\<open>success_batch_size\<close> equal to \<open>s\<close>.
\<close>

definition last_success :: "int \<Rightarrow> int \<Rightarrow> int \<Rightarrow> nat \<Rightarrow> int" where
  "last_success s b step n = (if n = 0 then s else b + int (n - 1) * step)"

text \<open>The first \<open>n\<close> iterations of a probe from \<open>start\<close> are run and all pass.\<close>

definition first_passes :: "(nat \<Rightarrow> int \<Rightarrow> outcome) \<Rightarrow> int \<Rightarrow> int \<Rightarrow> int \<Rightarrow> nat \<Rightarrow> bool" where
  "first_passes env start mx step n \<longleftrightarrow>
     (\<forall>i<n. start + int i * step \<le> mx \<and> env i (start + int i * step) = Passed)"

text \<open>The test of line 80 and line 81 together.\<close>

definition is_oom :: "exn \<Rightarrow> bool" where
  "is_oom e \<longleftrightarrow> runtime_error e \<and> sublist ''CUDA out of memory'' (message e)"

text \<open>
  Memory exhaustion is decided by a threshold \<open>T\<close> on the batch size: every size below
  \<open>T\<close> passes, every size from \<open>T\<close> on fails with an out-of-memory error.
\<close>

definition memory_threshold :: "int \<Rightarrow> (nat \<Rightarrow> int \<Rightarrow> outcome) \<Rightarrow> bool" where
  "memory_threshold T env \<longleftrightarrow>
     (\<forall>k b. (b < T \<longrightarrow> env k b = Passed) \<and>
            (T \<le> b \<longrightarrow> (\<exists>e. env k b = RaisedInTry e \<and> is_oom e)))"

text \<open>Every iteration either passes or fails with an out-of-memory error.\<close>

definition pass_or_oom :: "(nat \<Rightarrow> int \<Rightarrow> outcome) \<Rightarrow> bool" where
  "pass_or_oom env \<longleftrightarrow>
     (\<forall>k b. env k b = Passed \<or> (\<exists>e. env k b = RaisedInTry e \<and> is_oom e))"

text \<open>The events of the training steps of the given epochs, \<open>n\<close> batches each.\<close>

definition train_steps :: "nat \<Rightarrow> nat list \<Rightarrow> event list" where
  "train_steps n epochs = concat (map (\<lambda>epoch. map (TrainStep epoch) [0..<n]) epochs)"

text \<open>
  What the tensor library promises of \<^verbatim>\<open>torch.randint(low, high, size=(rows, cols))\<close>
  when it returns: a tensor of that shape with entries from \<open>low\<close> up to, not
  including, \<open>high\<close>.
\<close>

definition randint_contract :: "'g torch \<Rightarrow> bool" where
  "randint_contract T \<longleftrightarrow>
     (\<forall>g low high rows cols t g'.
        randint T g low high rows cols = Inr (t, g') \<longrightarrow>
          int (length t) = rows \<and>
          (\<forall>r \<in> set t. int (length r) = cols \<and> (\<forall>x \<in> set r. low \<le> x \<and> x < high)))"

section \<open>Concrete environments\<close>

definition cuda_oom :: exn where
  "cuda_oom = \<lparr>runtime_error = True,
                message = ''CUDA out of memory. Tried to allocate 2.00 GiB''\<rparr>"

definition nccl_error :: exn where
  "nccl_error = \<lparr>runtime_error = True, message = ''NCCL error: unhandled system error''\<rparr>"

definition value_error :: exn where
  "value_error = \<lparr>runtime_error = False,
                   message = ''batch_size should be a positive integer value''\<rparr>"

text \<open>Sizes below \<open>T\<close> pass; the forward/backward pass at any other size raises \<open>e\<close>.\<close>

definition raises_from :: "exn \<Rightarrow> int \<Rightarrow> nat \<Rightarrow> int \<Rightarrow> outcome" where
  "raises_from e T k b = (if b < T then Passed else RaisedInTry e)"

text \<open>
  A worker whose accelerator holds batches of fewer than \<open>T\<close> samples, whose training
  loader yields two batches per epoch, and whose training steps all succeed.
\<close>

definition quiet_world :: "int \<Rightarrow> world" where
  "quiet_world T =
     \<lparr>probe_outcome = raises_from cuda_oom T,
      train_loader = (\<lambda>b. if b \<le> 0 then Inl value_error else Inr 2),
      train_outcome = (\<lambda>epoch i. None)\<rparr>"

text \<open>The same worker, except that the second training step of the first epoch fails.\<close>

definition failing_world :: "int \<Rightarrow> world" where
  "failing_world T =
     \<lparr>probe_outcome = raises_from cuda_oom T,
      train_loader = (\<lambda>b. if b \<le> 0 then Inl value_error else Inr 2),
      train_outcome = (\<lambda>epoch i. if epoch = 0 \<and> i = 1 then Some nccl_error else None)\<rparr>"

text \<open>
  A linear congruential generator as a concrete instance of the tensor library's
  generator: the state is the last number drawn.
\<close>

fun lcg_row :: "int \<Rightarrow> int \<Rightarrow> int \<Rightarrow> nat \<Rightarrow> int list \<times> int" where
  "lcg_row g low high 0 = ([], g)"
| "lcg_row g low high (Suc n) =
     (let g' = (1103515245 * g + 12345) mod 2147483648;
          (xs, g'') = lcg_row g' low high n
      in ((low + g' mod (high - low)) # xs, g''))"

fun lcg_rows :: "int \<Rightarrow> int \<Rightarrow> int \<Rightarrow> nat \<Rightarrow> nat \<Rightarrow> int list list \<times> int" where
  "lcg_rows g low high 0 cols = ([], g)"
| "lcg_rows g low high (Suc n) cols =
     (let (r, g') = lcg_row g low high cols;
          (rs, g'') = lcg_rows g' low high n cols
      in (r # rs, g''))"

definition lcg_torch :: "int torch" where
  "lcg_torch =
     \<lparr>manual_seed = (\<lambda>seed. seed mod 2147483648),
      randint = (\<lambda>g low high rows cols.
        if high \<le> low \<or> rows < 0 \<or> cols < 0
        then Inl \<lparr>runtime_error = True, message = ''invalid range or shape''\<rparr>
        else Inr (lcg_rows g low high (nat rows) (nat cols)))\<rparr>"

section \<open>The probing loop: unfolding, termination and an invariant rule\<close>

lemma probe_loop_leave:
  "mx < b \<Longrightarrow> probe_loop env mx step k b s tr = Some (tr, Inr s)"
  by (subst probe_loop.simps) simp

lemma probe_loop_pass:
  "b \<le> mx \<Longrightarrow> env k b = Passed \<Longrightarrow>
   probe_loop env mx step k b s tr =
   probe_loop env mx step (Suc k) (b + step) b (tr @ [MakeDataLoader b, ProbeStep b])"
  by (subst probe_loop.simps) simp

lemma probe_loop_raise:
  "b \<le> mx \<Longrightarrow> env k b = RaisedInTry e \<Longrightarrow>
   probe_loop env mx step k b s tr =
   (if is_oom e then Some (tr @ [MakeDataLoader b, ProbeStep b], Inr s)
    else Some (tr @ [MakeDataLoader b, ProbeStep b], Inl e))"
  by (subst probe_loop.simps) (simp add: is_oom_def)

lemma probe_loop_loader:
  "b \<le> mx \<Longrightarrow> env k b = RaisedAtLoader e \<Longrightarrow>
   probe_loop env mx step k b s tr = Some (tr @ [MakeDataLoader b], Inl e)"
  by (subst probe_loop.simps) simp

lemma stride_trace_snoc:
  "stride_trace b step n @ [MakeDataLoader (b + int n * step), ProbeStep (b + int n * step)] =
   stride_trace b step (Suc n)"
proof (induction n arbitrary: b)
  case 0
  show ?case by simp
next
  case (Suc n)
  have "b + step + int n * step = b + int (Suc n) * step" by (simp add: algebra_simps)
  with Suc.IH [of "b + step"] show ?case by simp
qed

lemma last_success_Suc: "last_success s b step (Suc n) = b + int n * step"
  by (simp add: last_success_def)

lemma probe_loop_passes:
  "(\<forall>i<n. b + int i * step \<le> mx \<and> env (k + i) (b + int i * step) = Passed) \<Longrightarrow>
   probe_loop env mx step k b s tr =
   probe_loop env mx step (k + n) (b + int n * step) (last_success s b step n)
     (tr @ stride_trace b step n)"
proof (induction n arbitrary: s)
  case 0
  show ?case by (simp add: last_success_def)
next
  case (Suc n)
  from Suc.prems have below: "b + int n * step \<le> mx" and pass: "env (k + n) (b + int n * step) = Passed"
    by simp_all
  from Suc.prems have "\<forall>i<n. b + int i * step \<le> mx \<and> env (k + i) (b + int i * step) = Passed"
    by simp
  from Suc.IH [OF this, of s]
  have "probe_loop env mx step k b s tr =
        probe_loop env mx step (k + n) (b + int n * step) (last_success s b step n)
          (tr @ stride_trace b step n)" .
  also have "\<dots> = probe_loop env mx step (Suc (k + n)) (b + int n * step + step) (b + int n * step)
          ((tr @ stride_trace b step n) @
           [MakeDataLoader (b + int n * step), ProbeStep (b + int n * step)])"
    using below pass by (rule probe_loop_pass [where env = env])
  also have "b + int n * step + step = b + int (Suc n) * step" by (simp add: algebra_simps)
  also have "(tr @ stride_trace b step n) @
           [MakeDataLoader (b + int n * step), ProbeStep (b + int n * step)] =
           tr @ stride_trace b step (Suc n)"
    using stride_trace_snoc [of b step n] by simp
  finally show ?case by (simp add: last_success_Suc)
qed

lemma probe_loop_first_passes:
  assumes "first_passes env start mx step n"
  shows "probe_loop env mx step 0 start start tr =
         probe_loop env mx step n (start + int n * step) (last_success start start step n)
           (tr @ stride_trace start step n)"
  using probe_loop_passes [of n start step mx env 0 start tr] assms
  by (simp add: first_passes_def)

lemma probe_loop_terminates:
  "0 < step \<Longrightarrow> \<exists>y. probe_loop env mx step k b s tr = Some y"
proof (induction "nat (mx + 1 - b)" arbitrary: k b s tr rule: less_induct)
  case less
  show ?case
  proof (cases "b \<le> mx")
    case False
    then show ?thesis by (simp add: probe_loop_leave)
  next
    case True
    show ?thesis
    proof (cases "env k b")
      case Passed
      have "nat (mx + 1 - (b + step)) < nat (mx + 1 - b)"
        using True less.prems by simp
      from less.hyps [OF this less.prems]
      show ?thesis using True Passed by (simp add: probe_loop_pass [where env = env])
    next
      case (RaisedInTry e)
      then show ?thesis using True by (simp add: probe_loop_raise [where env = env])
    next
      case (RaisedAtLoader e)
      then show ?thesis using True by (simp add: probe_loop_loader [where env = env])
    qed
  qed
qed

lemma probe_loop_rule:
  assumes run: "probe_loop env mx step k b s tr = Some y"
    and init: "I k b s tr"
    and pass: "\<And>k b s tr. I k b s tr \<Longrightarrow> b \<le> mx \<Longrightarrow> env k b = Passed \<Longrightarrow>
                 I (Suc k) (b + step) b (tr @ [MakeDataLoader b, ProbeStep b])"
    and leave: "\<And>k b s tr. I k b s tr \<Longrightarrow> mx < b \<Longrightarrow> Q (tr, Inr s)"
    and oom: "\<And>k b s tr e. I k b s tr \<Longrightarrow> b \<le> mx \<Longrightarrow> env k b = RaisedInTry e \<Longrightarrow>
                 is_oom e \<Longrightarrow> Q (tr @ [MakeDataLoader b, ProbeStep b], Inr s)"
    and other: "\<And>k b s tr e. I k b s tr \<Longrightarrow> b \<le> mx \<Longrightarrow> env k b = RaisedInTry e \<Longrightarrow>
                 \<not> is_oom e \<Longrightarrow> Q (tr @ [MakeDataLoader b, ProbeStep b], Inl e)"
    and loader: "\<And>k b s tr e. I k b s tr \<Longrightarrow> b \<le> mx \<Longrightarrow> env k b = RaisedAtLoader e \<Longrightarrow>
                 Q (tr @ [MakeDataLoader b], Inl e)"
  shows "Q y"
proof -
  define P where "P = (\<lambda>env' mx' step' k b s tr y.
    env' = env \<longrightarrow> mx' = mx \<longrightarrow> step' = step \<longrightarrow> I k b s tr \<longrightarrow> Q y)"
  have "P env mx step k b s tr y"
  proof (rule probe_loop.raw_induct [where P = P, OF _ run], goal_cases)
    case (1 f env' mx' step' k b s tr y)
    show ?case
      unfolding P_def
    proof (intro impI)
      assume eqs: "env' = env" "mx' = mx" "step' = step" and inv: "I k b s tr"
      show "Q y"
      proof (cases "b \<le> mx")
        case False
        with 1(2) eqs have "y = (tr, Inr s)" by simp
        with leave [OF inv] False show ?thesis by simp
      next
        case True
        show ?thesis
        proof (cases "env k b")
          case Passed
          with True 1(2) eqs
          have "f env mx step (Suc k) (b + step) b (tr @ [MakeDataLoader b, ProbeStep b]) = Some y"
            by simp
          from 1(1) [OF this] pass [OF inv True Passed] show ?thesis by (simp add: P_def)
        next
          case (RaisedInTry e)
          show ?thesis
          proof (cases "is_oom e")
            case True
            with \<open>b \<le> mx\<close> RaisedInTry 1(2) eqs
            have "y = (tr @ [MakeDataLoader b, ProbeStep b], Inr s)" by (simp add: is_oom_def)
            with oom [OF inv \<open>b \<le> mx\<close> RaisedInTry True] show ?thesis by simp
          next
            case False
            with \<open>b \<le> mx\<close> RaisedInTry 1(2) eqs
            have "y = (tr @ [MakeDataLoader b, ProbeStep b], Inl e)"
              by (auto simp: is_oom_def split: if_splits)
            with other [OF inv \<open>b \<le> mx\<close> RaisedInTry False] show ?thesis by simp
          qed
        next
          case (RaisedAtLoader e)
          with True 1(2) eqs have "y = (tr @ [MakeDataLoader b], Inl e)" by simp
          with loader [OF inv True RaisedAtLoader] show ?thesis by simp
        qed
      qed
    qed
  qed
  with init show ?thesis by (simp add: P_def)
qed

lemma find_max_batch_size_Inr:
  "find_max_batch_size env start mx step = Some (tr, Inr r) \<longleftrightarrow>
   (\<exists>tr'. probe_loop env mx step 0 start start bootstrap = Some (tr', Inr r) \<and>
          tr = tr' @ [DestroyProcessGroup])"
  by (auto simp: find_max_batch_size_def split: option.splits sum.splits prod.splits)

lemma find_max_batch_size_Inl:
  "find_max_batch_size env start mx step = Some (tr, Inl e) \<longleftrightarrow>
   probe_loop env mx step 0 start start bootstrap = Some (tr, Inl e)"
  by (auto simp: find_max_batch_size_def split: option.splits sum.splits prod.splits)

lemma is_oom_cuda_oom: "is_oom cuda_oom"
  by (simp add: is_oom_def cuda_oom_def)

lemma memory_threshold_raises_from: "memory_threshold T (raises_from cuda_oom T)"
  by (simp add: memory_threshold_def raises_from_def is_oom_cuda_oom)

section \<open>Traces of the loops\<close>

lemma train_batches_Inr:
  "train_batches steps epoch batches tr = (tr', Inr u) \<Longrightarrow>
   tr' = tr @ map (TrainStep epoch) batches"
proof (induction batches arbitrary: tr)
  case Nil
  then show ?case by simp
next
  case (Cons i batches)
  from Cons.prems have "train_batches steps epoch batches (tr @ [TrainStep epoch i]) = (tr', Inr u)"
    by (simp split: option.splits)
  from Cons.IH [OF this] show ?case by simp
qed

lemma train_batches_teardowns:
  "count_list (fst (train_batches steps epoch batches tr)) DestroyProcessGroup =
   count_list tr DestroyProcessGroup"
  by (induction batches arbitrary: tr) (auto split: option.splits)

lemma train_epochs_Inr:
  "train_epochs steps n epochs tr = (tr', Inr u) \<Longrightarrow> tr' = tr @ train_steps n epochs"
proof (induction epochs arbitrary: tr)
  case Nil
  then show ?case by (simp add: train_steps_def)
next
  case (Cons epoch epochs)
  obtain t res where b: "train_batches steps epoch [0..<n] tr = (t, res)" by force
  show ?case
  proof (cases res)
    case (Inl e)
    with b Cons.prems show ?thesis by simp
  next
    case (Inr v)
    with b have t: "t = tr @ map (TrainStep epoch) [0..<n]" by (simp add: train_batches_Inr)
    from b Inr Cons.prems have "train_epochs steps n epochs t = (tr', Inr u)" by simp
    from Cons.IH [OF this] t show ?thesis by (simp add: train_steps_def)
  qed
qed

lemma train_epochs_teardowns:
  "count_list (fst (train_epochs steps n epochs tr)) DestroyProcessGroup =
   count_list tr DestroyProcessGroup"
proof (induction epochs arbitrary: tr)
  case Nil
  show ?case by simp
next
  case (Cons epoch epochs)
  obtain t res where b: "train_batches steps epoch [0..<n] tr = (t, res)" by force
  have t: "count_list t DestroyProcessGroup = count_list tr DestroyProcessGroup"
    using train_batches_teardowns [of steps epoch "[0..<n]" tr] b by simp
  show ?case
  proof (cases res)
    case (Inl e)
    with b t show ?thesis by simp
  next
    case (Inr v)
    with b t Cons.IH [of t] show ?thesis by simp
  qed
qed

lemma count_list_append_event:
  "count_list (xs @ ys) (e::event) = count_list xs e + count_list ys e"
  by (induction xs) auto

lemma probe_loop_teardowns:
  assumes "probe_loop env mx step k b s tr = Some (tr', res)"
  shows "count_list tr' DestroyProcessGroup = count_list tr DestroyProcessGroup"
proof -
  have "count_list (fst y) DestroyProcessGroup = count_list tr DestroyProcessGroup"
    if "probe_loop env mx step k b s tr = Some y" for y
    using that
    by (rule probe_loop_rule [where
          I = "\<lambda>k b s t. count_list t DestroyProcessGroup = count_list tr DestroyProcessGroup"])
       (simp_all add: count_list_append_event)
  from this [OF assms] show ?thesis by simp
qed

lemma probe_loop_trace:
  assumes "probe_loop env mx step 0 start start tr = Some (tr', Inr r)"
  shows "\<exists>n. tr' = tr @ stride_trace start step n"
proof -
  have "case y of (t, Inl e) \<Rightarrow> True | (t, Inr r) \<Rightarrow> \<exists>n. t = tr @ stride_trace start step n"
    if "probe_loop env mx step 0 start start tr = Some y" for y
    using that
  proof (rule probe_loop_rule [where
        I = "\<lambda>k b s t. b = start + int k * step \<and> t = tr @ stride_trace start step k"])
    show "start = start + int 0 * step \<and> tr = tr @ stride_trace start step 0" by simp
  next
    fix k b s t
    assume "b = start + int k * step \<and> t = tr @ stride_trace start step k"
    then show "b + step = start + int (Suc k) * step \<and>
        t @ [MakeDataLoader b, ProbeStep b] = tr @ stride_trace start step (Suc k)"
      using stride_trace_snoc [of start step k] by (simp add: algebra_simps)
  next
    fix k b s t e
    assume "b = start + int k * step \<and> t = tr @ stride_trace start step k"
    then have "t @ [MakeDataLoader b, ProbeStep b] = tr @ stride_trace start step (Suc k)"
      using stride_trace_snoc [of start step k] by simp
    then show "case (t @ [MakeDataLoader b, ProbeStep b], Inr s) of
        (t, Inl e) \<Rightarrow> True | (t, Inr r) \<Rightarrow> \<exists>n. t = tr @ stride_trace start step n"
      by (simp del: stride_trace.simps) blast
  qed auto
  from this [OF assms] show ?thesis by simp
qed

section \<open>Facts about the dataset and the concrete generator\<close>

lemma tensor_row_in_range:
  assumes "0 \<le> idx" and "idx < int (length t)"
  shows "tensor_row t idx = Inr (t ! nat idx) \<and> t ! nat idx \<in> set t"
  using assms by (simp add: tensor_row_def Let_def)

lemma DummyDataset_init_Inr:
  assumes "DummyDataset_init T g0 n_samples num_tokens max_len seed = Inr (d, g)"
  shows "\<exists>g1 g2 g3.
           randint T (manual_seed T seed) 0 num_tokens n_samples max_len = Inr (input_ids d, g1)
         \<and> randint T g1 0 num_tokens n_samples max_len = Inr (decoder_input_ids d, g2)
         \<and> randint T g2 0 num_tokens n_samples max_len = Inr (labels d, g3)
         \<and> num_samples d = n_samples"
  using assms
  by (auto simp: DummyDataset_init_def Let_def split: sum.splits prod.splits)

lemma lcg_row_contract:
  assumes "low < high" and "lcg_row g low high n = (xs, g')"
  shows "length xs = n \<and> (\<forall>x \<in> set xs. low \<le> x \<and> x < high)"
  using assms(2)
proof (induction n arbitrary: g xs g')
  case 0
  then show ?case by simp
next
  case (Suc n)
  let ?g = "(1103515245 * g + 12345) mod 2147483648"
  obtain ys h where rest: "lcg_row ?g low high n = (ys, h)" by force
  with Suc.prems have xs: "xs = (low + ?g mod (high - low)) # ys"
    by (simp add: Let_def)
  from assms(1) have "0 \<le> ?g mod (high - low)" "?g mod (high - low) < high - low"
    by simp_all
  then have "low \<le> low + ?g mod (high - low)" "low + ?g mod (high - low) < high"
    by linarith+
  with Suc.IH [OF rest] xs show ?case by simp
qed

lemma lcg_rows_contract:
  assumes "low < high" and "lcg_rows g low high n cols = (t, g')"
  shows "length t = n \<and> (\<forall>r \<in> set t. length r = cols \<and> (\<forall>x \<in> set r. low \<le> x \<and> x < high))"
  using assms(2)
proof (induction n arbitrary: g t g')
  case 0
  then show ?case by simp
next
  case (Suc n)
  obtain r h where row: "lcg_row g low high cols = (r, h)" by force
  obtain rs h' where rest: "lcg_rows h low high n cols = (rs, h')" by force
  from Suc.prems row rest have t: "t = r # rs" by (simp add: Let_def)
  from lcg_row_contract [OF assms(1) row] Suc.IH [OF rest] t show ?case by simp
qed

lemma randint_contract_lcg_torch: "randint_contract lcg_torch"
  unfolding randint_contract_def
proof (intro allI impI)
  fix g low high rows cols t g'
  assume run: "randint lcg_torch g low high rows cols = Inr (t, g')"
  then have ok: "low < high" "0 \<le> rows" "0 \<le> cols"
    and rows: "lcg_rows g low high (nat rows) (nat cols) = (t, g')"
    by (auto simp: lcg_torch_def split: if_splits)
  from lcg_rows_contract [OF ok(1) rows] ok
  show "int (length t) = rows \<and>
        (\<forall>r \<in> set t. int (length r) = cols \<and> (\<forall>x \<in> set r. low \<le> x \<and> x < high))"
    by simp
qed

section \<open>The batch-size probe: what it searches and what it returns\<close>

text \<open>
  Claim C1, as stated, fails. With the script's own settings (floor 2, stride 32,
  maximum 512) and a memory threshold of 20, the probe passes at size 2, fails at size
  34 and returns 2, although size 19 is greater than 2 and fits. With a threshold of
  1000 the sixteen sizes from 2 to 482 pass, the next candidate 514 exceeds the maximum,
  and 482 is returned, although size 600 fits.
\<close>

theorem result_not_maximal_counterexample:
  "memory_threshold 20 (raises_from cuda_oom 20)
   \<and> find_max_batch_size (raises_from cuda_oom 20) 2 512 32 =
       Some ([InitProcessGroup, SetDevice, InitializeModel,
              MakeDataLoader 2, ProbeStep 2, MakeDataLoader 34, ProbeStep 34,
              DestroyProcessGroup], Inr 2)
   \<and> (2::int) < 19
   \<and> raises_from cuda_oom 20 0 19 = Passed
   \<and> memory_threshold 1000 (raises_from cuda_oom 1000)
   \<and> find_max_batch_size (raises_from cuda_oom 1000) 2 512 32 =
       Some (bootstrap @ stride_trace 2 32 16 @ [DestroyProcessGroup], Inr 482)
   \<and> (482::int) < 600
   \<and> raises_from cuda_oom 1000 0 600 = Passed"
proof -
  have small: "find_max_batch_size (raises_from cuda_oom 20) 2 512 32 =
       Some ([InitProcessGroup, SetDevice, InitializeModel,
              MakeDataLoader 2, ProbeStep 2, MakeDataLoader 34, ProbeStep 34,
              DestroyProcessGroup], Inr 2)"
    by code_simp
  have large: "find_max_batch_size (raises_from cuda_oom 1000) 2 512 32 =
       Some (bootstrap @ stride_trace 2 32 16 @ [DestroyProcessGroup], Inr 482)"
    by code_simp
  from small large show ?thesis
    by (simp add: memory_threshold_raises_from raises_from_def)
qed

text \<open>
  Claim C1, amended. With a positive stride and memory exhaustion decided by a threshold,
  the probe returns a value \<open>r\<close> such that no batch size from \<open>r + step\<close> up to
  \<^verbatim>\<open>max_batch_size\<close> fits: the result is maximal only up to one stride and only among
  sizes up to the configured maximum. When the floor itself fits, so does \<open>r\<close>.
\<close>

theorem result_maximal_up_to_stride:
  assumes "0 < step" and "memory_threshold T env"
  shows "\<exists>tr r. find_max_batch_size env start mx step = Some (tr, Inr r)
           \<and> (\<forall>k b. r + step \<le> b \<and> b \<le> mx \<longrightarrow> env k b \<noteq> Passed)
           \<and> (start < T \<longrightarrow> (\<forall>k. env k r = Passed))"
proof -
  have low: "env k b = Passed" if "b < T" for k b
    using assms(2) that by (simp add: memory_threshold_def)
  have high: "\<exists>e. env k b = RaisedInTry e \<and> is_oom e" if "T \<le> b" for k b
    using assms(2) that by (simp add: memory_threshold_def)
  from probe_loop_terminates [OF assms(1)] obtain y where
    run: "probe_loop env mx step 0 start start bootstrap = Some y" by blast
  let ?Q = "\<lambda>y. \<exists>t r. y = (t, Inr r)
              \<and> (\<forall>k b. r + step \<le> b \<and> b \<le> mx \<longrightarrow> env k b \<noteq> Passed)
              \<and> (start < T \<longrightarrow> r < T)"
  have "?Q y"
    using run
  proof (rule probe_loop_rule [where I = "\<lambda>k b s tr. b \<le> s + step \<and> (start < T \<longrightarrow> s < T)"])
    show "start \<le> start + step \<and> (start < T \<longrightarrow> start < T)"
      using assms(1) by simp
  next
    fix k b s tr
    assume inv: "b \<le> s + step \<and> (start < T \<longrightarrow> s < T)" and "env k b = Passed"
    then have "b < T" using high [of b k] by (cases "b < T") auto
    then show "b + step \<le> b + step \<and> (start < T \<longrightarrow> b < T)" by simp
  next
    fix k b s tr
    assume "b \<le> s + step \<and> (start < T \<longrightarrow> s < T)" and "mx < b"
    then show "?Q (tr, Inr s)" by auto
  next
    fix k b s tr e
    assume inv: "b \<le> s + step \<and> (start < T \<longrightarrow> s < T)" and raised: "env k b = RaisedInTry e"
    have "T \<le> b" using raised low [of b k] by (cases "b < T") auto
    have "env k' c \<noteq> Passed" if "s + step \<le> c" for k' c
    proof -
      from that inv \<open>T \<le> b\<close> have "T \<le> c" by simp
      from high [OF this, of k'] show ?thesis by auto
    qed
    with inv show "?Q (tr @ [MakeDataLoader b, ProbeStep b], Inr s)" by auto
  next
    fix k b s tr e
    assume raised: "env k b = RaisedInTry e" and "\<not> is_oom e"
    then have False using low [of b k] high [of b k] by (cases "b < T") auto
    then show "?Q (tr @ [MakeDataLoader b, ProbeStep b], Inl e)" ..
  next
    fix k b s tr e
    assume "env k b = RaisedAtLoader e"
    then have False using low [of b k] high [of b k] by (cases "b < T") auto
    then show "?Q (tr @ [MakeDataLoader b], Inl e)" ..
  qed
  then obtain t r where y: "y = (t, Inr r)"
    and far: "\<forall>k b. r + step \<le> b \<and> b \<le> mx \<longrightarrow> env k b \<noteq> Passed"
    and fit: "start < T \<longrightarrow> r < T" by blast
  from run y have "find_max_batch_size env start mx step = Some (t @ [DestroyProcessGroup], Inr r)"
    by (simp add: find_max_batch_size_def)
  moreover from fit low have "start < T \<longrightarrow> (\<forall>k. env k r = Passed)" by blast
  ultimately show ?thesis using far by blast
qed

theorem result_maximal_up_to_stride_witness:
  "(0::int) < 32 \<and> memory_threshold 100 (raises_from cuda_oom 100)
   \<and> (\<exists>tr r. find_max_batch_size (raises_from cuda_oom 100) 2 512 32 = Some (tr, Inr r)
        \<and> (\<forall>k b. \<not> (r + 32 \<le> b \<and> b \<le> 512 \<and> raises_from cuda_oom 100 k b = Passed))
        \<and> (\<forall>k. raises_from cuda_oom 100 k r = Passed))"
proof -
  have h1: "(0::int) < 32" by simp
  have h2: "memory_threshold 100 (raises_from cuda_oom 100)"
    by (simp add: memory_threshold_def raises_from_def is_oom_def cuda_oom_def)
  from result_maximal_up_to_stride [OF h1 h2, of 2 512]
  obtain tr r where "find_max_batch_size (raises_from cuda_oom 100) 2 512 32 = Some (tr, Inr r)"
    and "\<forall>k b. r + 32 \<le> b \<and> b \<le> 512 \<longrightarrow> raises_from cuda_oom 100 k b \<noteq> Passed"
    and "\<forall>k. raises_from cuda_oom 100 k r = Passed" by auto
  then have "\<exists>tr r. find_max_batch_size (raises_from cuda_oom 100) 2 512 32 = Some (tr, Inr r)
        \<and> (\<forall>k b. \<not> (r + 32 \<le> b \<and> b \<le> 512 \<and> raises_from cuda_oom 100 k b = Passed))
        \<and> (\<forall>k. raises_from cuda_oom 100 k r = Passed)" by blast
  with h1 h2 show ?thesis by blast
qed

text \<open>
  Claim C2. The probe is a linear search from the floor with a fixed stride. Suppose the
  first \<open>n\<close> iterations, at sizes \<open>start\<close>, \<open>start + step\<close>, and so on, all passed.
  If the next candidate exceeds the maximum, the loop ends and the last size that passed
  is returned. Otherwise the candidate is attempted: when it passes, it becomes the last
  successful size and the loop goes on with the candidate increased by \<open>step\<close>; when
  it fails with an out-of-memory error, the loop stops and the last successful size is
  returned; any other failure leaves the function as it was raised.
\<close>

theorem probe_is_linear_search:
  assumes "first_passes env start mx step n"
  shows "(mx < start + int n * step \<longrightarrow>
            find_max_batch_size env start mx step =
              Some (bootstrap @ stride_trace start step n @ [DestroyProcessGroup],
                    Inr (last_success start start step n)))
       \<and> (start + int n * step \<le> mx \<longrightarrow>
            (case env n (start + int n * step) of
               Passed \<Rightarrow>
                 first_passes env start mx step (Suc n) \<and>
                 probe_loop env mx step 0 start start bootstrap =
                 probe_loop env mx step (Suc n) (start + int n * step + step)
                   (start + int n * step) (bootstrap @ stride_trace start step (Suc n))
             | RaisedInTry e \<Rightarrow>
                 find_max_batch_size env start mx step =
                   (if is_oom e
                    then Some (bootstrap @ stride_trace start step (Suc n) @ [DestroyProcessGroup],
                               Inr (last_success start start step n))
                    else Some (bootstrap @ stride_trace start step (Suc n), Inl e))
             | RaisedAtLoader e \<Rightarrow>
                 find_max_batch_size env start mx step =
                   Some (bootstrap @ stride_trace start step n @
                         [MakeDataLoader (start + int n * step)], Inl e)))"
proof -
  let ?b = "start + int n * step"
  let ?s = "last_success start start step n"
  let ?tr = "bootstrap @ stride_trace start step n"
  have reach: "probe_loop env mx step 0 start start bootstrap = probe_loop env mx step n ?b ?s ?tr"
    by (rule probe_loop_first_passes [OF assms])
  have snoc: "?tr @ [MakeDataLoader ?b, ProbeStep ?b] = bootstrap @ stride_trace start step (Suc n)"
    using stride_trace_snoc [of start step n] by simp
  have over: "find_max_batch_size env start mx step =
        Some (?tr @ [DestroyProcessGroup], Inr ?s)" if "mx < ?b"
    using that reach by (simp add: find_max_batch_size_def probe_loop_leave)
  have pass: "first_passes env start mx step (Suc n) \<and>
        probe_loop env mx step 0 start start bootstrap =
        probe_loop env mx step (Suc n) (?b + step) ?b (bootstrap @ stride_trace start step (Suc n))"
    if "?b \<le> mx" "env n ?b = Passed"
  proof
    show "first_passes env start mx step (Suc n)"
      using assms that by (auto simp: first_passes_def less_Suc_eq)
    show "probe_loop env mx step 0 start start bootstrap =
        probe_loop env mx step (Suc n) (?b + step) ?b (bootstrap @ stride_trace start step (Suc n))"
      using that reach snoc by (simp add: probe_loop_pass [where env = env])
  qed
  have raise: "find_max_batch_size env start mx step =
       (if is_oom e
        then Some (bootstrap @ stride_trace start step (Suc n) @ [DestroyProcessGroup], Inr ?s)
        else Some (bootstrap @ stride_trace start step (Suc n), Inl e))"
    if "?b \<le> mx" "env n ?b = RaisedInTry e" for e
    using that reach snoc
    by (simp add: find_max_batch_size_def probe_loop_raise [where env = env])
  have loader: "find_max_batch_size env start mx step =
       Some (?tr @ [MakeDataLoader ?b], Inl e)"
    if "?b \<le> mx" "env n ?b = RaisedAtLoader e" for e
    using that reach
    by (simp add: find_max_batch_size_def probe_loop_loader [where env = env])
  show ?thesis
    using over pass raise loader by (simp split: outcome.splits)
qed

theorem probe_is_linear_search_witness:
  "first_passes (raises_from cuda_oom 100) 2 512 32 4
   \<and> find_max_batch_size (raises_from cuda_oom 100) 2 512 32 =
       Some (bootstrap @ stride_trace 2 32 5 @ [DestroyProcessGroup], Inr 98)"
proof -
  have h: "first_passes (raises_from cuda_oom 100) 2 512 32 4"
    unfolding first_passes_def by (auto simp: raises_from_def)
  show ?thesis
    using h probe_is_linear_search [OF h]
    by (simp add: raises_from_def is_oom_cuda_oom last_success_def)
qed

text \<open>
  Claim C3, as stated, fails: with a floor of 2000 above the maximum of 1024 the loop
  body never runs and the floor itself is returned.
\<close>

theorem result_exceeds_max_counterexample:
  "find_max_batch_size (raises_from cuda_oom 100) 2000 1024 16 =
     Some ([InitProcessGroup, SetDevice, InitializeModel, DestroyProcessGroup], Inr 2000)
   \<and> \<not> (2000::int) \<le> 1024"
  by code_simp

text \<open>
  Claim C3, amended. When \<^verbatim>\<open>start_batch_size\<close> is at most \<^verbatim>\<open>max_batch_size\<close>, every
  value the probe returns is at most \<^verbatim>\<open>max_batch_size\<close>; with a positive stride and
  only passes and out-of-memory failures the probe does return such a value.
\<close>

theorem result_at_most_max_when_floor_is:
  assumes "start \<le> mx"
  shows "(\<forall>tr r. find_max_batch_size env start mx step = Some (tr, Inr r) \<longrightarrow> r \<le> mx)
       \<and> (0 < step \<and> pass_or_oom env \<longrightarrow>
            (\<exists>tr r. find_max_batch_size env start mx step = Some (tr, Inr r) \<and> r \<le> mx))"
proof -
  have bound: "case y of (t, Inl e) \<Rightarrow> True | (t, Inr r) \<Rightarrow> r \<le> mx"
    if "probe_loop env mx step 0 start start bootstrap = Some y" for y
    using that
    by (rule probe_loop_rule [where I = "\<lambda>k b s tr. s \<le> mx"]) (use assms in auto)
  have safe: "r \<le> mx" if "find_max_batch_size env start mx step = Some (tr, Inr r)" for tr r
  proof -
    from that obtain tr' where "probe_loop env mx step 0 start start bootstrap = Some (tr', Inr r)"
      by (auto simp: find_max_batch_size_Inr)
    from bound [OF this] show ?thesis by simp
  qed
  have live: "\<exists>tr r. find_max_batch_size env start mx step = Some (tr, Inr r) \<and> r \<le> mx"
    if "0 < step" "pass_or_oom env"
  proof -
    from probe_loop_terminates [OF that(1)] obtain y where
      run: "probe_loop env mx step 0 start start bootstrap = Some y" by blast
    have either: "env k b = Passed \<or> (\<exists>e. env k b = RaisedInTry e \<and> is_oom e)" for k b
      using that(2) by (simp add: pass_or_oom_def)
    have "\<exists>t r. y = (t, Inr r)"
      using run
    proof (rule probe_loop_rule [where I = "\<lambda>k b s tr. True"])
      fix k b s tr e
      assume "env k b = RaisedInTry e" "\<not> is_oom e"
      with either [of k b] show "\<exists>t r. (tr @ [MakeDataLoader b, ProbeStep b], Inl e) = (t, Inr r)"
        by auto
    next
      fix k b s tr e
      assume "env k b = RaisedAtLoader e"
      with either [of k b] show "\<exists>t r. (tr @ [MakeDataLoader b], Inl e) = (t, Inr r)"
        by auto
    qed simp_all
    then obtain t r where "y = (t, Inr r)" by blast
    with run have "find_max_batch_size env start mx step = Some (t @ [DestroyProcessGroup], Inr r)"
      by (simp add: find_max_batch_size_def)
    with safe show ?thesis by blast
  qed
  from safe live show ?thesis by blast
qed

theorem result_at_most_max_when_floor_is_witness:
  "(2::int) \<le> 512 \<and> (0::int) < 32 \<and> pass_or_oom (raises_from cuda_oom 100)
   \<and> (\<exists>tr r. find_max_batch_size (raises_from cuda_oom 100) 2 512 32 = Some (tr, Inr r)
        \<and> r \<le> 512)"
proof -
  have h1: "(2::int) \<le> 512" by simp
  have h2: "(0::int) < 32" by simp
  have h3: "pass_or_oom (raises_from cuda_oom 100)"
    by (simp add: pass_or_oom_def raises_from_def is_oom_def cuda_oom_def)
  show ?thesis
    using h1 h2 h3 result_at_most_max_when_floor_is [OF h1, of "raises_from cuda_oom 100" 32]
    by simp
qed

text \<open>
  Claim C4. An exception raised by the forward/backward pass of an attempt ends the
  probe with a returned size exactly when it is a \<^verbatim>\<open>RuntimeError\<close> whose text
  contains \<^verbatim>\<open>CUDA out of memory\<close>; exactly in the other case the same exception leaves
  \<^verbatim>\<open>find_max_batch_size\<close>, so that no size is returned after a failure that is not a
  memory failure.
\<close>

theorem only_oom_ends_probe_gracefully:
  assumes "first_passes env start mx step n"
    and "start + int n * step \<le> mx"
    and "env n (start + int n * step) = RaisedInTry e"
  shows "((\<exists>tr r. find_max_batch_size env start mx step = Some (tr, Inr r)) \<longleftrightarrow>
          runtime_error e \<and> (\<exists>pre post. message e = pre @ ''CUDA out of memory'' @ post))
       \<and> ((\<exists>tr. find_max_batch_size env start mx step = Some (tr, Inl e)) \<longleftrightarrow>
          \<not> (runtime_error e \<and> (\<exists>pre post. message e = pre @ ''CUDA out of memory'' @ post)))"
proof -
  let ?b = "start + int n * step"
  have oom: "is_oom e \<longleftrightarrow>
      runtime_error e \<and> (\<exists>pre post. message e = pre @ ''CUDA out of memory'' @ post)"
    by (simp add: is_oom_def sublist_def)
  have "probe_loop env mx step 0 start start bootstrap =
        probe_loop env mx step n ?b (last_success start start step n)
          (bootstrap @ stride_trace start step n)"
    by (rule probe_loop_first_passes [OF assms(1)])
  with assms(2,3) have "find_max_batch_size env start mx step =
      (if is_oom e
       then Some ((bootstrap @ stride_trace start step n) @
                  [MakeDataLoader ?b, ProbeStep ?b] @ [DestroyProcessGroup],
                  Inr (last_success start start step n))
       else Some ((bootstrap @ stride_trace start step n) @
                  [MakeDataLoader ?b, ProbeStep ?b], Inl e))"
    by (simp add: find_max_batch_size_def probe_loop_raise [where env = env])
  then show ?thesis
    unfolding oom [symmetric] by (cases "is_oom e") simp_all
qed

theorem only_oom_ends_probe_gracefully_witness:
  "first_passes (raises_from nccl_error 100) 2 512 32 4
   \<and> 2 + int 4 * 32 \<le> (512::int)
   \<and> raises_from nccl_error 100 4 (2 + int 4 * 32) = RaisedInTry nccl_error
   \<and> runtime_error nccl_error
   \<and> (\<nexists>tr r. find_max_batch_size (raises_from nccl_error 100) 2 512 32 = Some (tr, Inr r))
   \<and> (\<exists>tr. find_max_batch_size (raises_from nccl_error 100) 2 512 32 = Some (tr, Inl nccl_error))"
proof -
  have h1: "first_passes (raises_from nccl_error 100) 2 512 32 4"
    unfolding first_passes_def by (auto simp: raises_from_def)
  have h2: "2 + int 4 * 32 \<le> (512::int)" by simp
  have h3: "raises_from nccl_error 100 4 (2 + int 4 * 32) = RaisedInTry nccl_error"
    by (simp add: raises_from_def)
  have h4: "\<not> sublist ''CUDA out of memory'' (message nccl_error)"
    by code_simp
  have h5: "runtime_error nccl_error" by (simp add: nccl_error_def)
  show ?thesis
    using h1 h2 h3 h5 h4 only_oom_ends_probe_gracefully [OF h1 h2 h3]
    unfolding sublist_def by simp
qed

text \<open>
  Claim C9. Every value that \<^verbatim>\<open>find_max_batch_size\<close> returns is on the grid
  \<open>start_batch_size + k * step\<close> with \<open>k\<close> a natural number.
\<close>

theorem result_on_stride_grid:
  assumes "find_max_batch_size env start mx step = Some (tr, Inr r)"
  shows "\<exists>k::nat. r = start + int k * step"
proof -
  from assms obtain tr' where
    run: "probe_loop env mx step 0 start start bootstrap = Some (tr', Inr r)"
    by (auto simp: find_max_batch_size_Inr)
  have "case y of (t, Inl e) \<Rightarrow> True | (t, Inr r) \<Rightarrow> \<exists>m::nat. r = start + int m * step"
    if "probe_loop env mx step 0 start start bootstrap = Some y" for y
    using that
  proof (rule probe_loop_rule [where
        I = "\<lambda>k b s tr. b = start + int k * step \<and> (\<exists>m::nat. s = start + int m * step)"])
    show "start = start + int 0 * step \<and> (\<exists>m::nat. start = start + int m * step)"
      by simp
  next
    fix k b s tr
    assume "b = start + int k * step \<and> (\<exists>m::nat. s = start + int m * step)"
    then show "b + step = start + int (Suc k) * step \<and> (\<exists>m::nat. b = start + int m * step)"
      by (auto simp: algebra_simps)
  qed auto
  from this [OF run] show ?thesis by simp
qed

theorem result_on_stride_grid_witness:
  "find_max_batch_size (raises_from cuda_oom 100) 2 512 32 =
     Some ([InitProcessGroup, SetDevice, InitializeModel,
            MakeDataLoader 2, ProbeStep 2, MakeDataLoader 34, ProbeStep 34,
            MakeDataLoader 66, ProbeStep 66, MakeDataLoader 98, ProbeStep 98,
            MakeDataLoader 130, ProbeStep 130, DestroyProcessGroup], Inr 98)
   \<and> (\<exists>k::nat. (98::int) = 2 + int k * 32)"
proof -
  have h: "find_max_batch_size (raises_from cuda_oom 100) 2 512 32 =
     Some ([InitProcessGroup, SetDevice, InitializeModel,
            MakeDataLoader 2, ProbeStep 2, MakeDataLoader 34, ProbeStep 34,
            MakeDataLoader 66, ProbeStep 66, MakeDataLoader 98, ProbeStep 98,
            MakeDataLoader 130, ProbeStep 130, DestroyProcessGroup], Inr 98)"
    by code_simp
  show ?thesis using h result_on_stride_grid [OF h] by simp
qed

text \<open>
  Claim C10. When the very first attempt, at \<^verbatim>\<open>start_batch_size\<close>, fails with an
  out-of-memory error, no forward/backward pass has succeeded, and still
  \<^verbatim>\<open>find_max_batch_size\<close> tears the process group down and returns
  \<^verbatim>\<open>start_batch_size\<close>; \<^verbatim>\<open>main\<close> then runs \<^verbatim>\<open>train\<close> with that size.
\<close>

theorem first_attempt_oom_returns_floor:
  assumes "start \<le> mx" and "probe_outcome W 0 start = RaisedInTry e" and "is_oom e"
  shows "find_max_batch_size (probe_outcome W) start mx step =
           Some ([InitProcessGroup, SetDevice, InitializeModel,
                  MakeDataLoader start, ProbeStep start, DestroyProcessGroup], Inr start)
       \<and> main W start mx step epochs =
           Some ([InitProcessGroup, SetDevice, InitializeModel,
                  MakeDataLoader start, ProbeStep start, DestroyProcessGroup]
                 @ fst (train W start epochs), snd (train W start epochs))"
proof -
  have loop: "probe_loop (probe_outcome W) mx step 0 start start bootstrap =
        Some (bootstrap @ [MakeDataLoader start, ProbeStep start], Inr start)"
    using assms by (simp add: probe_loop_raise [where env = "probe_outcome W"])
  then have probe: "find_max_batch_size (probe_outcome W) start mx step =
           Some ([InitProcessGroup, SetDevice, InitializeModel,
                  MakeDataLoader start, ProbeStep start, DestroyProcessGroup], Inr start)"
    by (simp add: find_max_batch_size_def bootstrap_def)
  then show ?thesis
    by (simp add: main_def split: prod.splits)
qed

theorem first_attempt_oom_returns_floor_witness:
  "(2::int) \<le> 512 \<and> probe_outcome (quiet_world 2) 0 2 = RaisedInTry cuda_oom \<and> is_oom cuda_oom
   \<and> find_max_batch_size (probe_outcome (quiet_world 2)) 2 512 32 =
       Some ([InitProcessGroup, SetDevice, InitializeModel,
              MakeDataLoader 2, ProbeStep 2, DestroyProcessGroup], Inr 2)
   \<and> main (quiet_world 2) 2 512 32 1 =
       Some ([InitProcessGroup, SetDevice, InitializeModel,
              MakeDataLoader 2, ProbeStep 2, DestroyProcessGroup,
              InitProcessGroup, SetDevice, InitializeModel, MakeDataLoader 2,
              TrainStep 0 0, TrainStep 0 1, DestroyProcessGroup], Inr ())"
proof -
  have h1: "(2::int) \<le> 512" by simp
  have h2: "probe_outcome (quiet_world 2) 0 2 = RaisedInTry cuda_oom"
    by (simp add: quiet_world_def raises_from_def)
  have h3: "is_oom cuda_oom" by (simp add: is_oom_def cuda_oom_def)
  have t: "train (quiet_world 2) 2 1 =
     ([InitProcessGroup, SetDevice, InitializeModel, MakeDataLoader 2,
              TrainStep 0 0, TrainStep 0 1, DestroyProcessGroup], Inr ())"
    by code_simp
  show ?thesis
    using h1 h2 h3 first_attempt_oom_returns_floor [OF h1 h2 h3, of 32 1] t by simp
qed

section \<open>Teardown and the order of the phases\<close>

text \<open>
  Claim C6. In a run of \<^verbatim>\<open>find_max_batch_size\<close> and in a run of \<^verbatim>\<open>train\<close> the
  process group is destroyed exactly once when the function returns (also when the probe
  left its loop by the out-of-memory \<^verbatim>\<open>break\<close>) and not at all when an exception
  leaves the function.
\<close>

theorem teardown_on_success_path_only:
  "(find_max_batch_size env start mx step = Some (tr, res) \<longrightarrow>
      count_list tr DestroyProcessGroup = (case res of Inl e \<Rightarrow> 0 | Inr r \<Rightarrow> 1))
   \<and> (train W batch_size epochs = (tr', res') \<longrightarrow>
      count_list tr' DestroyProcessGroup = (case res' of Inl e \<Rightarrow> 0 | Inr u \<Rightarrow> 1))"
proof
  show "find_max_batch_size env start mx step = Some (tr, res) \<longrightarrow>
      count_list tr DestroyProcessGroup = (case res of Inl e \<Rightarrow> 0 | Inr r \<Rightarrow> 1)"
  proof
    assume run: "find_max_batch_size env start mx step = Some (tr, res)"
    show "count_list tr DestroyProcessGroup = (case res of Inl e \<Rightarrow> 0 | Inr r \<Rightarrow> 1)"
    proof (cases res)
      case (Inl e)
      with run have "probe_loop env mx step 0 start start bootstrap = Some (tr, Inl e)"
        by (simp add: find_max_batch_size_Inl)
      from probe_loop_teardowns [OF this] Inl show ?thesis by (simp add: bootstrap_def)
    next
      case (Inr r)
      with run obtain t where "probe_loop env mx step 0 start start bootstrap = Some (t, Inr r)"
        and tr: "tr = t @ [DestroyProcessGroup]"
        by (auto simp: find_max_batch_size_Inr)
      from probe_loop_teardowns [OF this(1)] tr Inr show ?thesis
        by (simp add: bootstrap_def count_list_append_event)
    qed
  qed
next
  show "train W batch_size epochs = (tr', res') \<longrightarrow>
      count_list tr' DestroyProcessGroup = (case res' of Inl e \<Rightarrow> 0 | Inr u \<Rightarrow> 1)"
  proof
    assume run: "train W batch_size epochs = (tr', res')"
    show "count_list tr' DestroyProcessGroup = (case res' of Inl e \<Rightarrow> 0 | Inr u \<Rightarrow> 1)"
    proof (cases "train_loader W batch_size")
      case (Inl e)
      with run show ?thesis by (auto simp: train_def bootstrap_def)
    next
      case (Inr n)
      obtain t res where
        ep: "train_epochs (train_outcome W) n [0..<nat epochs]
               (bootstrap @ [MakeDataLoader batch_size]) = (t, res)" by force
      have t: "count_list t DestroyProcessGroup = 0"
        using train_epochs_teardowns [of "train_outcome W" n "[0..<nat epochs]"
            "bootstrap @ [MakeDataLoader batch_size]"] ep
        by (simp add: bootstrap_def)
      from run Inr ep t show ?thesis
        by (cases res) (auto simp: train_def count_list_append_event)
    qed
  qed
qed

theorem teardown_on_success_path_only_witness:
  "find_max_batch_size (raises_from cuda_oom 100) 2 512 32 =
     Some ([InitProcessGroup, SetDevice, InitializeModel,
            MakeDataLoader 2, ProbeStep 2, MakeDataLoader 34, ProbeStep 34,
            MakeDataLoader 66, ProbeStep 66, MakeDataLoader 98, ProbeStep 98,
            MakeDataLoader 130, ProbeStep 130, DestroyProcessGroup], Inr 98)
   \<and> count_list [InitProcessGroup, SetDevice, InitializeModel,
            MakeDataLoader 2, ProbeStep 2, MakeDataLoader 34, ProbeStep 34,
            MakeDataLoader 66, ProbeStep 66, MakeDataLoader 98, ProbeStep 98,
            MakeDataLoader 130, ProbeStep 130, DestroyProcessGroup] DestroyProcessGroup = 1
   \<and> train (failing_world 100) 98 1 =
     ([InitProcessGroup, SetDevice, InitializeModel, MakeDataLoader 98,
       TrainStep 0 0, TrainStep 0 1], Inl nccl_error)
   \<and> count_list [InitProcessGroup, SetDevice, InitializeModel, MakeDataLoader 98,
       TrainStep 0 0, TrainStep 0 1] DestroyProcessGroup = 0"
proof -
  have h1: "find_max_batch_size (raises_from cuda_oom 100) 2 512 32 =
     Some ([InitProcessGroup, SetDevice, InitializeModel,
            MakeDataLoader 2, ProbeStep 2, MakeDataLoader 34, ProbeStep 34,
            MakeDataLoader 66, ProbeStep 66, MakeDataLoader 98, ProbeStep 98,
            MakeDataLoader 130, ProbeStep 130, DestroyProcessGroup], Inr 98)"
    by code_simp
  have h2: "train (failing_world 100) 98 1 =
     ([InitProcessGroup, SetDevice, InitializeModel, MakeDataLoader 98,
       TrainStep 0 0, TrainStep 0 1], Inl nccl_error)"
    by code_simp
  from teardown_on_success_path_only [of "raises_from cuda_oom 100" 2 512 32 _ _
      "failing_world 100" 98 1] h1 h2
  show ?thesis by simp
qed

text \<open>
  Claim C7. When \<^verbatim>\<open>main\<close> returns normally, the worker's events are, in this order:
  process group initialised, device selected, model initialised, the probing
  iterations, process group destroyed, process group initialised again, device
  selected, model initialised again, the training loader and all training steps,
  process group destroyed.
\<close>

theorem success_path_sequence:
  assumes "main W start mx step epochs = Some (tr, Inr u)"
  shows "\<exists>n m nb ptr.
           find_max_batch_size (probe_outcome W) start mx step = Some (ptr, Inr m)
         \<and> train_loader W m = Inr nb
         \<and> tr = [InitProcessGroup, SetDevice, InitializeModel]
                @ stride_trace start step n
                @ [DestroyProcessGroup]
                @ [InitProcessGroup, SetDevice, InitializeModel, MakeDataLoader m]
                @ train_steps nb [0..<nat epochs]
                @ [DestroyProcessGroup]"
proof -
  from assms obtain ptr m ttr where
    probe: "find_max_batch_size (probe_outcome W) start mx step = Some (ptr, Inr m)"
    and tr: "train W m epochs = (ttr, Inr u)" and cat: "tr = ptr @ ttr"
    by (auto simp: main_def split: option.splits sum.splits prod.splits)
  from probe obtain t where
    "probe_loop (probe_outcome W) mx step 0 start start bootstrap = Some (t, Inr m)"
    and ptr: "ptr = t @ [DestroyProcessGroup]"
    by (auto simp: find_max_batch_size_Inr)
  from probe_loop_trace [OF this(1)] obtain n where
    t: "t = bootstrap @ stride_trace start step n" by blast
  from tr obtain nb t' where nb: "train_loader W m = Inr nb"
    and ep: "train_epochs (train_outcome W) nb [0..<nat epochs]
               (bootstrap @ [MakeDataLoader m]) = (t', Inr ())"
    and ttr: "ttr = t' @ [DestroyProcessGroup]"
    by (auto simp: train_def split: sum.splits prod.splits)
  from train_epochs_Inr [OF ep]
  have "t' = (bootstrap @ [MakeDataLoader m]) @ train_steps nb [0..<nat epochs]" .
  with cat ptr t ttr have
    "tr = [InitProcessGroup, SetDevice, InitializeModel]
                @ stride_trace start step n
                @ [DestroyProcessGroup]
                @ [InitProcessGroup, SetDevice, InitializeModel, MakeDataLoader m]
                @ train_steps nb [0..<nat epochs]
                @ [DestroyProcessGroup]"
    by (simp add: bootstrap_def)
  with probe nb show ?thesis by blast
qed

theorem success_path_sequence_witness:
  "main (quiet_world 100) 2 512 32 1 =
     Some ([InitProcessGroup, SetDevice, InitializeModel,
            MakeDataLoader 2, ProbeStep 2, MakeDataLoader 34, ProbeStep 34,
            MakeDataLoader 66, ProbeStep 66, MakeDataLoader 98, ProbeStep 98,
            MakeDataLoader 130, ProbeStep 130,
            DestroyProcessGroup,
            InitProcessGroup, SetDevice, InitializeModel, MakeDataLoader 98,
            TrainStep 0 0, TrainStep 0 1,
            DestroyProcessGroup], Inr ())
   \<and> (\<exists>n m nb ptr.
           find_max_batch_size (probe_outcome (quiet_world 100)) 2 512 32 = Some (ptr, Inr m)
         \<and> train_loader (quiet_world 100) m = Inr nb
         \<and> [InitProcessGroup, SetDevice, InitializeModel,
            MakeDataLoader 2, ProbeStep 2, MakeDataLoader 34, ProbeStep 34,
            MakeDataLoader 66, ProbeStep 66, MakeDataLoader 98, ProbeStep 98,
            MakeDataLoader 130, ProbeStep 130,
            DestroyProcessGroup,
            InitProcessGroup, SetDevice, InitializeModel, MakeDataLoader 98,
            TrainStep 0 0, TrainStep 0 1,
            DestroyProcessGroup]
           = [InitProcessGroup, SetDevice, InitializeModel]
                @ stride_trace 2 32 n
                @ [DestroyProcessGroup]
                @ [InitProcessGroup, SetDevice, InitializeModel, MakeDataLoader m]
                @ train_steps nb [0..<nat 1]
                @ [DestroyProcessGroup])"
proof -
  have h: "main (quiet_world 100) 2 512 32 1 =
     Some ([InitProcessGroup, SetDevice, InitializeModel,
            MakeDataLoader 2, ProbeStep 2, MakeDataLoader 34, ProbeStep 34,
            MakeDataLoader 66, ProbeStep 66, MakeDataLoader 98, ProbeStep 98,
            MakeDataLoader 130, ProbeStep 130,
            DestroyProcessGroup,
            InitProcessGroup, SetDevice, InitializeModel, MakeDataLoader 98,
            TrainStep 0 0, TrainStep 0 1,
            DestroyProcessGroup], Inr ())"
    by code_simp
  from success_path_sequence [OF h] h show ?thesis by blast
qed

section \<open>The synthetic dataset: determinism and shapes\<close>

text \<open>
  Claim C5. The dataset depends on the seed and the configuration only, not on the state
  of the generator before the constructor runs: two constructions with the same
  arguments give the same result, hence the same three tensors and the same item at
  every index.
\<close>

theorem dataset_deterministic_under_seed:
  "DummyDataset_init T g n_samples num_tokens max_len seed =
   DummyDataset_init T g' n_samples num_tokens max_len seed
   \<and> (DummyDataset_init T g n_samples num_tokens max_len seed = Inr (d, h) \<and>
      DummyDataset_init T g' n_samples num_tokens max_len seed = Inr (d', h') \<longrightarrow>
        input_ids d = input_ids d' \<and> decoder_input_ids d = decoder_input_ids d'
        \<and> labels d = labels d'
        \<and> (\<forall>idx. DummyDataset_getitem d idx = DummyDataset_getitem d' idx))"
proof -
  have same: "DummyDataset_init T g n_samples num_tokens max_len seed =
      DummyDataset_init T g' n_samples num_tokens max_len seed"
    by (simp add: DummyDataset_init_def)
  then show ?thesis by auto
qed

theorem dataset_deterministic_under_seed_witness:
  "DummyDataset_init lcg_torch 0 2 5 3 42 =
       Inr (\<lparr>num_samples = 2, input_ids = [[2, 4, 3], [1, 0, 2]],
             decoder_input_ids = [[3, 1, 4], [2, 0, 2]],
             labels = [[3, 1, 3], [4, 4, 0]]\<rparr>, 705377000)
   \<and> DummyDataset_init lcg_torch 7 2 5 3 42 = DummyDataset_init lcg_torch 0 2 5 3 42"
proof -
  have h: "DummyDataset_init lcg_torch 0 2 5 3 42 =
       Inr (\<lparr>num_samples = 2, input_ids = [[2, 4, 3], [1, 0, 2]],
             decoder_input_ids = [[3, 1, 4], [2, 0, 2]],
             labels = [[3, 1, 3], [4, 4, 0]]\<rparr>, 705377000)"
    by code_simp
  from dataset_deterministic_under_seed [of lcg_torch 7 2 5 3 42 0] h
  show ?thesis by simp
qed

text \<open>
  Claim C8. Provided \<^verbatim>\<open>torch.randint\<close> keeps its contract, a constructed dataset has
  length \<^verbatim>\<open>num_samples\<close>, and at every index from 0 up to \<^verbatim>\<open>num_samples - 1\<close> the
  item is a dictionary with exactly the keys \<^verbatim>\<open>input_ids\<close>, \<^verbatim>\<open>decoder_input_ids\<close> and
  \<^verbatim>\<open>labels\<close>, each value of length \<^verbatim>\<open>max_len\<close> with entries from 0 up to, not
  including, \<^verbatim>\<open>num_tokens\<close>.
\<close>

theorem dataset_shapes_match_configuration:
  assumes "randint_contract T"
    and "DummyDataset_init T g0 n_samples num_tokens max_len seed = Inr (d, g)"
  shows "DummyDataset_len d = n_samples
       \<and> (\<forall>idx. 0 \<le> idx \<and> idx < n_samples \<longrightarrow>
            (\<exists>a b c. DummyDataset_getitem d idx =
                        Inr [(''input_ids'', a), (''decoder_input_ids'', b), (''labels'', c)]
                    \<and> (\<forall>v \<in> {a, b, c}. int (length v) = max_len
                          \<and> (\<forall>x \<in> set v. 0 \<le> x \<and> x < num_tokens))))"
proof -
  from DummyDataset_init_Inr [OF assms(2)] obtain g1 g2 g3 where
    a: "randint T (manual_seed T seed) 0 num_tokens n_samples max_len = Inr (input_ids d, g1)"
    and b: "randint T g1 0 num_tokens n_samples max_len = Inr (decoder_input_ids d, g2)"
    and c: "randint T g2 0 num_tokens n_samples max_len = Inr (labels d, g3)"
    and n: "num_samples d = n_samples" by blast
  have shape: "int (length t) = n_samples \<and>
      (\<forall>r \<in> set t. int (length r) = max_len \<and> (\<forall>x \<in> set r. 0 \<le> x \<and> x < num_tokens))"
    if "randint T h 0 num_tokens n_samples max_len = Inr (t, h')" for h t h'
    using assms(1) that unfolding randint_contract_def by blast
  have item: "\<exists>a b c. DummyDataset_getitem d idx =
                        Inr [(''input_ids'', a), (''decoder_input_ids'', b), (''labels'', c)]
                    \<and> (\<forall>v \<in> {a, b, c}. int (length v) = max_len
                          \<and> (\<forall>x \<in> set v. 0 \<le> x \<and> x < num_tokens))"
    if idx: "0 \<le> idx" "idx < n_samples" for idx
  proof -
    have ra: "tensor_row (input_ids d) idx = Inr (input_ids d ! nat idx)"
        "input_ids d ! nat idx \<in> set (input_ids d)"
      using tensor_row_in_range [of idx "input_ids d"] idx shape [OF a] by simp_all
    have rb: "tensor_row (decoder_input_ids d) idx = Inr (decoder_input_ids d ! nat idx)"
        "decoder_input_ids d ! nat idx \<in> set (decoder_input_ids d)"
      using tensor_row_in_range [of idx "decoder_input_ids d"] idx shape [OF b] by simp_all
    have rc: "tensor_row (labels d) idx = Inr (labels d ! nat idx)"
        "labels d ! nat idx \<in> set (labels d)"
      using tensor_row_in_range [of idx "labels d"] idx shape [OF c] by simp_all
    have "DummyDataset_getitem d idx =
        Inr [(''input_ids'', input_ids d ! nat idx),
             (''decoder_input_ids'', decoder_input_ids d ! nat idx),
             (''labels'', labels d ! nat idx)]"
      by (simp add: DummyDataset_getitem_def ra(1) rb(1) rc(1))
    moreover have "\<forall>v \<in> {input_ids d ! nat idx, decoder_input_ids d ! nat idx, labels d ! nat idx}.
        int (length v) = max_len \<and> (\<forall>x \<in> set v. 0 \<le> x \<and> x < num_tokens)"
      using ra(2) rb(2) rc(2) shape [OF a] shape [OF b] shape [OF c] by blast
    ultimately show ?thesis by blast
  qed
  from n item show ?thesis by (simp add: DummyDataset_len_def)
qed

theorem dataset_shapes_match_configuration_witness:
  "randint_contract lcg_torch
   \<and> DummyDataset_init lcg_torch 0 2 5 3 42 =
       Inr (\<lparr>num_samples = 2, input_ids = [[2, 4, 3], [1, 0, 2]],
             decoder_input_ids = [[3, 1, 4], [2, 0, 2]],
             labels = [[3, 1, 3], [4, 4, 0]]\<rparr>, 705377000)
   \<and> DummyDataset_len \<lparr>num_samples = 2, input_ids = [[2, 4, 3], [1, 0, 2]],
             decoder_input_ids = [[3, 1, 4], [2, 0, 2]],
             labels = [[3, 1, 3], [4, 4, 0]]\<rparr> = 2
   \<and> (\<exists>a b c. DummyDataset_getitem \<lparr>num_samples = 2, input_ids = [[2, 4, 3], [1, 0, 2]],
             decoder_input_ids = [[3, 1, 4], [2, 0, 2]],
             labels = [[3, 1, 3], [4, 4, 0]]\<rparr> 1 =
          Inr [(''input_ids'', a), (''decoder_input_ids'', b), (''labels'', c)]
        \<and> length a = 3 \<and> length b = 3 \<and> length c = 3
        \<and> list_all (\<lambda>x. 0 \<le> x \<and> x < 5) (a @ b @ c))"
proof -
  have h1: "randint_contract lcg_torch" by (rule randint_contract_lcg_torch)
  have h2: "DummyDataset_init lcg_torch 0 2 5 3 42 =
       Inr (\<lparr>num_samples = 2, input_ids = [[2, 4, 3], [1, 0, 2]],
             decoder_input_ids = [[3, 1, 4], [2, 0, 2]],
             labels = [[3, 1, 3], [4, 4, 0]]\<rparr>, 705377000)"
    by code_simp
  from dataset_shapes_match_configuration [OF h1 h2]
  have "DummyDataset_len \<lparr>num_samples = 2, input_ids = [[2, 4, 3], [1, 0, 2]],
             decoder_input_ids = [[3, 1, 4], [2, 0, 2]],
             labels = [[3, 1, 3], [4, 4, 0]]\<rparr> = 2"
    and "\<exists>a b c. DummyDataset_getitem \<lparr>num_samples = 2, input_ids = [[2, 4, 3], [1, 0, 2]],
             decoder_input_ids = [[3, 1, 4], [2, 0, 2]],
             labels = [[3, 1, 3], [4, 4, 0]]\<rparr> 1 =
          Inr [(''input_ids'', a), (''decoder_input_ids'', b), (''labels'', c)]
        \<and> (\<forall>v \<in> {a, b, c}. int (length v) = 3 \<and> (\<forall>x \<in> set v. 0 \<le> x \<and> x < 5))"
    by simp_all
  then have "\<exists>a b c. DummyDataset_getitem \<lparr>num_samples = 2, input_ids = [[2, 4, 3], [1, 0, 2]],
             decoder_input_ids = [[3, 1, 4], [2, 0, 2]],
             labels = [[3, 1, 3], [4, 4, 0]]\<rparr> 1 =
          Inr [(''input_ids'', a), (''decoder_input_ids'', b), (''labels'', c)]
        \<and> length a = 3 \<and> length b = 3 \<and> length c = 3
        \<and> list_all (\<lambda>x. 0 \<le> x \<and> x < 5) (a @ b @ c)"
    by (auto simp: list_all_iff)
  with h1 h2 \<open>DummyDataset_len _ = 2\<close> show ?thesis by blast
qed

end
